theory Spec2Isabelle
  imports Main
begin

section \<open>Python strings\<close>

text \<open>
  A Python \<^verbatim>\<open>str\<close> is modelled as a \<^typ>\<open>string\<close>: a list of characters with code
  points below 256. The string methods used by \<^verbatim>\<open>grab_archive.py\<close> are written out for
  that range.
\<close>

definition is_space :: "char \<Rightarrow> bool" where
  \<comment> \<open>\<^verbatim>\<open>str.isspace\<close> on one character: TAB..CR, FS..US, space, NEL, NBSP.\<close>
  "is_space c =
     (let n = (of_char c :: nat)
      in (9 \<le> n \<and> n \<le> 13) \<or> (28 \<le> n \<and> n \<le> 32) \<or> n = 133 \<or> n = 160)"

definition strip :: "string \<Rightarrow> string" where
  \<comment> \<open>\<^verbatim>\<open>s.strip()\<close>\<close>
  "strip s = rev (dropWhile is_space (rev (dropWhile is_space s)))"

definition lower_char :: "char \<Rightarrow> char" where
  "lower_char c =
     (let n = (of_char c :: nat)
      in if (65 \<le> n \<and> n \<le> 90) \<or> (192 \<le> n \<and> n \<le> 222 \<and> n \<noteq> 215)
         then char_of (n + 32) else c)"

definition lower :: "string \<Rightarrow> string" where
  \<comment> \<open>\<^verbatim>\<open>s.lower()\<close>\<close>
  "lower s = map lower_char s"

definition endswith :: "string \<Rightarrow> string \<Rightarrow> bool" where
  \<comment> \<open>\<^verbatim>\<open>s.endswith(t)\<close>\<close>
  "endswith s t = (length t \<le> length s \<and> drop (length s - length t) s = t)"

section \<open>Errors\<close>

text \<open>
  Every exception that the program raises itself, and every exception of a collaborator
  that the program handles, is a value of \<open>error\<close>. \<open>RuntimeError\<close> carries the offending
  archive entry name (line 144), \<open>SizeMismatch\<close> is the \<^verbatim>\<open>IOError\<close> of line 124,
  \<open>ValueError\<close> is raised by \<^verbatim>\<open>Path.with_suffix\<close> on a path with an empty name, and
  \<open>LibError\<close> stands for any exception raised inside a collaborator (HTTP transport,
  HTML parser, URL resolution, archive decoding), tagged by a message.
\<close>

datatype error =
    RuntimeError string
  | SizeMismatch
  | ValueError
  | LibError string

section \<open>Link discovery\<close>

text \<open>
  \<^verbatim>\<open>HTMLParser.feed\<close> is a collaborator: it turns the page into a sequence of
  \<^verbatim>\<open>handle_starttag(tag, attrs)\<close> calls, where an attribute without a value has the
  value \<^verbatim>\<open>None\<close>. \<open>ZipLinkParser\<close> only overrides that callback, so the parser state
  is the list \<^verbatim>\<open>self.links\<close>.
\<close>

type_synonym attrs = "(string \<times> string option) list"

definition dict_get :: "('k \<times> 'v) list \<Rightarrow> 'k \<Rightarrow> 'v option" where
  \<comment> \<open>\<^verbatim>\<open>dict(pairs).get(k)\<close>: a later pair overrides an earlier one.\<close>
  "dict_get kvs k = map_of (rev kvs) k"

definition handle_starttag :: "string list \<Rightarrow> string \<times> attrs \<Rightarrow> string list" where
  "handle_starttag links ta =
     (case ta of (tag, attrs) \<Rightarrow>
        if lower tag \<noteq> ''a'' then links
        else (case dict_get attrs ''href'' of
                Some (Some href) \<Rightarrow>
                  if href \<noteq> [] \<and> endswith (lower href) ''.zip''
                  then links @ [strip href] else links
              | _ \<Rightarrow> links))"

definition feed :: "string list \<Rightarrow> (string \<times> attrs) list \<Rightarrow> string list" where
  \<comment> \<open>the callbacks of one \<^verbatim>\<open>parser.feed(html)\<close>, in document order\<close>
  "feed links tags = foldl handle_starttag links tags"

text \<open>
  The loop of lines 55 to 59. \<^verbatim>\<open>urljoin\<close> is a collaborator and may raise
  (\<^verbatim>\<open>ValueError\<close> on a malformed authority); the exception leaves the loop.
\<close>

fun resolve_links ::
  "(string \<Rightarrow> error + string) \<Rightarrow> string list \<Rightarrow> string set \<Rightarrow> string list \<Rightarrow> error + string list"
where
  "resolve_links join [] seen urls = Inr urls"
| "resolve_links join (href # hrefs) seen urls =
     (case join href of
        Inl e \<Rightarrow> Inl e
      | Inr full \<Rightarrow>
          if full \<notin> seen then resolve_links join hrefs (insert full seen) (urls @ [full])
          else resolve_links join hrefs seen urls)"

section \<open>Collaborators\<close>

text \<open>
  The HTTP transport, the HTML parser, the URL library and the archive decoder are black
  boxes for the program. They are parameters of the model, collected in one record:
  \<^item> \<open>fetch_html\<close>: \<^verbatim>\<open>fetch_html(url)\<close>, the decoded page or the exception of the transport;
  \<^item> \<open>html_starttags\<close>: the start tags that \<^verbatim>\<open>HTMLParser.feed\<close> reports for a page;
  \<^item> \<open>urljoin\<close>: \<^verbatim>\<open>urllib.parse.urljoin\<close>;
  \<^item> \<open>url_path\<close>: \<^verbatim>\<open>urllib.parse.urlparse(url).path\<close>;
  \<^item> \<open>utf8_decode\<close>: \<^verbatim>\<open>bytes.decode("utf-8", "replace")\<close>, used by \<^verbatim>\<open>unquote\<close>;
  \<^item> \<open>read_zip\<close>: the member list that \<^verbatim>\<open>zipfile.ZipFile\<close> reads from the bytes of a file,
    \<open>None\<close> when they are not an archive;
  \<^item> \<open>server\<close>: what the network does during attempt number \<open>n\<close> of the download of a URL.
\<close>

datatype cl_header = NoCL | BadCL | CL int
  \<comment> \<open>\<^verbatim>\<open>resp.headers.get("Content-Length")\<close>: absent or empty, not accepted by \<^verbatim>\<open>int()\<close>,
      or an integer\<close>

datatype get_result =
    GetFails error
  | GetOk cl_header "string list" "error option"
  \<comment> \<open>\<^verbatim>\<open>urlopen(req)\<close> raises, or gives a response: its \<^verbatim>\<open>Content-Length\<close>, the chunks that
      the calls of \<^verbatim>\<open>resp.read(262144)\<close> return in turn, and the exception that the read
      after the last chunk raises, if any (otherwise that read returns \<^verbatim>\<open>b""\<close>)\<close>

record attempt_net =
  head_total :: "int option"
  \<comment> \<open>\<^verbatim>\<open>total_size\<close> after lines 81 to 87: \<open>None\<close> when the HEAD request fails, has no
      \<^verbatim>\<open>Content-Length\<close> or \<^verbatim>\<open>int()\<close> rejects it\<close>
  get_result :: get_result

record zentry =
  filename :: string
  data :: "string option"  \<comment> \<open>\<open>None\<close>: the member cannot be decoded\<close>

record lib =
  fetch_html :: "string \<Rightarrow> error + string"
  html_starttags :: "string \<Rightarrow> error + (string \<times> attrs) list"
  urljoin :: "string \<Rightarrow> string \<Rightarrow> error + string"
  url_path :: "string \<Rightarrow> string"
  utf8_decode :: "string \<Rightarrow> string"
  read_zip :: "string \<Rightarrow> zentry list option"
  server :: "string \<Rightarrow> nat \<Rightarrow> attempt_net"

definition list_zip_urls :: "lib \<Rightarrow> string \<Rightarrow> error + string list" where
  "list_zip_urls L base_url =
     (case fetch_html L base_url of
        Inl e \<Rightarrow> Inl e
      | Inr html \<Rightarrow>
          (case html_starttags L html of
             Inl e \<Rightarrow> Inl e
           | Inr tags \<Rightarrow> resolve_links (urljoin L base_url) (feed [] tags) {} []))"

section \<open>Paths\<close>

text \<open>
  A \<^verbatim>\<open>pathlib.Path\<close> on a POSIX system: whether it has a root, and its components after
  the root. Parsing drops empty and \<^verbatim>\<open>.\<close> components and keeps \<^verbatim>\<open>..\<close>. (The root
  \<^verbatim>\<open>//\<close> of a path with exactly two leading slashes is not told apart from \<^verbatim>\<open>/\<close>.)
\<close>

datatype ppath = PPath (is_absolute: bool) (comps: "string list")

fun split_sep :: "char \<Rightarrow> string \<Rightarrow> string list" where
  \<comment> \<open>\<^verbatim>\<open>s.split(sep)\<close> for a one-character separator\<close>
  "split_sep sep [] = [[]]"
| "split_sep sep (c # cs) =
     (if c = sep then [] # split_sep sep cs
      else (case split_sep sep cs of
              w # ws \<Rightarrow> (c # w) # ws
            | [] \<Rightarrow> [[c]]))"

definition Path :: "string \<Rightarrow> ppath" where
  "Path s =
     PPath (s \<noteq> [] \<and> hd s = CHR ''/'')
       (filter (\<lambda>c. c \<noteq> [] \<and> c \<noteq> ''.'') (split_sep CHR ''/'' s))"

definition parts :: "ppath \<Rightarrow> string list" where
  \<comment> \<open>\<^verbatim>\<open>p.parts\<close>: the root, if any, then the components\<close>
  "parts p = (if is_absolute p then ''/'' # comps p else comps p)"

definition joinpath :: "ppath \<Rightarrow> string \<Rightarrow> ppath" where
  \<comment> \<open>\<^verbatim>\<open>p / s\<close>: an absolute right operand replaces the left one\<close>
  "joinpath p s =
     (let q = Path s
      in if is_absolute q then q else PPath (is_absolute p) (comps p @ comps q))"

definition name :: "ppath \<Rightarrow> string" where
  "name p = (if comps p = [] then [] else last (comps p))"

definition parent :: "ppath \<Rightarrow> ppath" where
  "parent p = PPath (is_absolute p) (butlast (comps p))"

definition rfind_dot :: "string \<Rightarrow> nat option" where
  \<comment> \<open>\<^verbatim>\<open>s.rfind(".")\<close>, \<open>None\<close> for \<^verbatim>\<open>-1\<close>\<close>
  "rfind_dot s =
     (if CHR ''.'' \<in> set s
      then Some (length s - 1 - length (takeWhile (\<lambda>c. c \<noteq> CHR ''.'') (rev s)))
      else None)"

definition suffix :: "ppath \<Rightarrow> string" where
  "suffix p =
     (let n = name p
      in case rfind_dot n of
           None \<Rightarrow> []
         | Some i \<Rightarrow> if 0 < i \<and> i < length n - 1 then drop i n else [])"

definition stem :: "ppath \<Rightarrow> string" where
  "stem p =
     (let n = name p
      in case rfind_dot n of
           None \<Rightarrow> n
         | Some i \<Rightarrow> if 0 < i \<and> i < length n - 1 then take i n else n)"

definition with_suffix :: "ppath \<Rightarrow> string \<Rightarrow> error + ppath" where
  "with_suffix p suf =
     (if CHR ''/'' \<in> set suf then Inl ValueError
      else if (suf \<noteq> [] \<and> hd suf \<noteq> CHR ''.'') \<or> suf = ''.'' then Inl ValueError
      else if name p = [] then Inl ValueError
      else let old = suffix p;
               n = (if old = [] then name p @ suf
                    else take (length (name p) - length old) (name p) @ suf)
           in Inr (PPath (is_absolute p) (butlast (comps p) @ [n])))"

section \<open>The world: files, directories and what the program emits\<close>

text \<open>
  The state outside the program: the regular files with their bytes, the directories,
  and the trace of what the program has done that is not a file operation (requests,
  sleeps, messages). Paths are compared as \<^verbatim>\<open>pathlib\<close> values. File operations do not
  fail: permissions, a full disk and the like are outside the model. The progress line
  of lines 111 to 121 depends on the clock and writes nothing but text; it is left out.
\<close>

datatype event =
    Head string  \<comment> \<open>HEAD request for a URL\<close>
  | Get string "nat option"  \<comment> \<open>GET request, with the start of the \<^verbatim>\<open>Range\<close> header if any\<close>
  | Sleep nat  \<comment> \<open>\<^verbatim>\<open>time.sleep\<close>, in seconds\<close>
  | MsgRetry string error nat  \<comment> \<open>line 133\<close>
  | MsgDownloaded string  \<comment> \<open>line 126\<close>
  | MsgScanning string  \<comment> \<open>line 162\<close>
  | MsgReadFailed error  \<comment> \<open>line 166\<close>
  | MsgNoZip  \<comment> \<open>line 170\<close>
  | MsgFound nat  \<comment> \<open>line 173\<close>
  | MsgInvalidName string  \<comment> \<open>line 183\<close>
  | MsgSkipped string  \<comment> \<open>line 189\<close>
  | MsgDownloadFailed string error  \<comment> \<open>line 194\<close>
  | MsgAlreadyExtracted string  \<comment> \<open>line 199\<close>
  | MsgCleaning ppath  \<comment> \<open>line 203\<close>
  | MsgExtracting string string  \<comment> \<open>line 207\<close>
  | MsgExtracted ppath  \<comment> \<open>line 209\<close>
  | MsgExtractFailed string error  \<comment> \<open>line 211\<close>

record world =
  files :: "ppath \<rightharpoonup> string"
  dirs :: "ppath set"
  trace :: "event list"

definition emit :: "event \<Rightarrow> world \<Rightarrow> world" where
  "emit e w = w\<lparr>trace := trace w @ [e]\<rparr>"

definition exists_path :: "world \<Rightarrow> ppath \<Rightarrow> bool" where
  \<comment> \<open>\<^verbatim>\<open>p.exists()\<close>\<close>
  "exists_path w p = (files w p \<noteq> None \<or> p \<in> dirs w)"

definition ancestors_self :: "ppath \<Rightarrow> ppath list" where
  "ancestors_self p =
     map (\<lambda>k. PPath (is_absolute p) (take k (comps p))) [0..<Suc (length (comps p))]"

definition mkdir_parents :: "ppath \<Rightarrow> world \<Rightarrow> world" where
  \<comment> \<open>\<^verbatim>\<open>p.mkdir(parents=True, exist_ok=True)\<close>\<close>
  "mkdir_parents p w = w\<lparr>dirs := dirs w \<union> set (ancestors_self p)\<rparr>"

definition replace :: "ppath \<Rightarrow> ppath \<Rightarrow> world \<Rightarrow> world" where
  \<comment> \<open>\<^verbatim>\<open>src.replace(dst)\<close>\<close>
  "replace src dst w = w\<lparr>files := (files w)(dst := files w src, src := None)\<rparr>"

definition below :: "ppath \<Rightarrow> ppath \<Rightarrow> bool" where
  \<comment> \<open>\<open>p\<close> is \<open>d\<close> or lies under it\<close>
  "below d p =
     (is_absolute p = is_absolute d \<and> length (comps d) \<le> length (comps p) \<and>
      take (length (comps d)) (comps p) = comps d)"

definition rmtree :: "ppath \<Rightarrow> world \<Rightarrow> world" where
  \<comment> \<open>\<^verbatim>\<open>shutil.rmtree(d, ignore_errors=True)\<close>: nothing happens when \<open>d\<close> is not a directory\<close>
  "rmtree d w =
     (if d \<in> dirs w
      then w\<lparr>files := (\<lambda>p. if below d p then None else files w p),
             dirs := {p \<in> dirs w. \<not> below d p}\<rparr>
      else w)"

section \<open>Safe extraction\<close>

text \<open>
  \<^verbatim>\<open>ZipFile.extractall\<close> writes the members in order. The library itself drops empty,
  \<^verbatim>\<open>.\<close> and \<^verbatim>\<open>..\<close> components of a member name, creates the directories above the
  target, makes a directory for a name that ends in a slash and a file otherwise. A
  member that cannot be decoded raises; what was written before it stays.
\<close>

definition member_target :: "ppath \<Rightarrow> string \<Rightarrow> ppath" where
  "member_target d fn =
     PPath (is_absolute d)
       (comps d @ filter (\<lambda>c. c \<noteq> [] \<and> c \<noteq> ''.'' \<and> c \<noteq> ''..'') (split_sep CHR ''/'' fn))"

definition extract_member :: "ppath \<Rightarrow> zentry \<Rightarrow> world \<Rightarrow> (error + unit) \<times> world" where
  "extract_member d m w =
     (let t = member_target d (filename m);
          w1 = mkdir_parents (parent t) w
      in if endswith (filename m) ''/'' then (Inr (), mkdir_parents t w1)
         else (case data m of
                 None \<Rightarrow> (Inl (LibError ''BadZipFile''), w1)
               | Some bs \<Rightarrow> (Inr (), w1\<lparr>files := (files w1)(t \<mapsto> bs)\<rparr>)))"

fun extractall :: "zentry list \<Rightarrow> ppath \<Rightarrow> world \<Rightarrow> (error + unit) \<times> world" where
  "extractall [] d w = (Inr (), w)"
| "extractall (m # ms) d w =
     (case extract_member d m w of
        (Inl e, w') \<Rightarrow> (Inl e, w')
      | (Inr u, w') \<Rightarrow> extractall ms d w')"

definition open_zip :: "lib \<Rightarrow> world \<Rightarrow> ppath \<Rightarrow> error + zentry list" where
  \<comment> \<open>\<^verbatim>\<open>zipfile.ZipFile(zip_path, "r")\<close> and its \<^verbatim>\<open>infolist()\<close>\<close>
  "open_zip L w zip_path =
     (case files w zip_path of
        None \<Rightarrow> Inl (LibError ''FileNotFoundError'')
      | Some bs \<Rightarrow>
          (case read_zip L bs of
             None \<Rightarrow> Inl (LibError ''BadZipFile'')
           | Some ms \<Rightarrow> Inr ms))"

definition suspicious :: "zentry \<Rightarrow> bool" where
  \<comment> \<open>the test of line 143\<close>
  "suspicious m = (let p = Path (filename m) in is_absolute p \<or> ''..'' \<in> set (parts p))"

fun check_members :: "zentry list \<Rightarrow> error + unit" where
  \<comment> \<open>the loop of lines 141 to 144\<close>
  "check_members [] = Inr ()"
| "check_members (m # ms) =
     (if suspicious m then Inl (RuntimeError (filename m)) else check_members ms)"

definition safe_extract_zip :: "lib \<Rightarrow> ppath \<Rightarrow> ppath \<Rightarrow> world \<Rightarrow> (error + unit) \<times> world" where
  "safe_extract_zip L zip_path extract_dir w =
     (let w1 = mkdir_parents extract_dir w
      in case open_zip L w1 zip_path of
           Inl e \<Rightarrow> (Inl e, w1)
         | Inr ms \<Rightarrow>
             (case check_members ms of
                Inl e \<Rightarrow> (Inl e, w1)
              | Inr u \<Rightarrow> extractall ms extract_dir w1))"

section \<open>Resumable download\<close>

definition st_size :: "world \<Rightarrow> ppath \<Rightarrow> nat" where
  \<comment> \<open>\<^verbatim>\<open>p.stat().st_size if p.exists() else 0\<close>\<close>
  "st_size w p = (case files w p of None \<Rightarrow> 0 | Some bs \<Rightarrow> length bs)"

definition already_complete :: "nat \<Rightarrow> int option \<Rightarrow> bool" where
  \<comment> \<open>line 89: \<^verbatim>\<open>existing and total_size and existing >= total_size\<close>\<close>
  "already_complete existing total_size =
     (existing \<noteq> 0 \<and>
      (case total_size of None \<Rightarrow> False | Some t \<Rightarrow> t \<noteq> 0 \<and> t \<le> int existing))"

definition size_mismatch :: "int option \<Rightarrow> nat \<Rightarrow> bool" where
  \<comment> \<open>line 123: \<^verbatim>\<open>total_size and tmp.stat().st_size != total_size\<close>\<close>
  "size_mismatch total_size sz =
     (case total_size of None \<Rightarrow> False | Some t \<Rightarrow> t \<noteq> 0 \<and> int sz \<noteq> t)"

definition open_staging :: "ppath \<Rightarrow> nat \<Rightarrow> world \<Rightarrow> world" where
  \<comment> \<open>\<^verbatim>\<open>open(tmp, "ab" if existing else "wb")\<close>: append, or create and truncate\<close>
  "open_staging tmp existing w =
     (if existing \<noteq> 0 then w else w\<lparr>files := (files w)(tmp \<mapsto> [])\<rparr>)"

definition content :: "world \<Rightarrow> ppath \<Rightarrow> string" where
  "content w p = (case files w p of None \<Rightarrow> [] | Some bs \<Rightarrow> bs)"

fun read_loop :: "string list \<Rightarrow> error option \<Rightarrow> string \<Rightarrow> error option \<times> string" where
  \<comment> \<open>the loop of lines 105 to 110 on the bytes of the staging file\<close>
  "read_loop [] fault bs = (fault, bs)"
| "read_loop (chunk # chunks) fault bs =
     (if chunk = [] then (None, bs) else read_loop chunks fault (bs @ chunk))"

definition attempt_once ::
  "attempt_net \<Rightarrow> string \<Rightarrow> ppath \<Rightarrow> ppath \<Rightarrow> world \<Rightarrow> (error + unit) \<times> world"
where
  \<comment> \<open>the body of the \<^verbatim>\<open>try\<close>, lines 80 to 127\<close>
  "attempt_once net url dest tmp w =
     (let existing = st_size w tmp;
          total_size = head_total net;
          w1 = emit (Head url) w
      in if already_complete existing total_size then (Inr (), replace tmp dest w1)
         else
           (let w2 = emit (Get url (if existing \<noteq> 0 then Some existing else None)) w1
            in case get_result net of
                 GetFails e \<Rightarrow> (Inl e, w2)
               | GetOk cl chunks fault \<Rightarrow>
                   (let w3 = open_staging tmp existing w2
                    in if total_size = None \<and> cl = BadCL then (Inl (LibError ''ValueError''), w3)
                       else
                         (let total_size' =
                                (case total_size of
                                   Some t \<Rightarrow> Some t
                                 | None \<Rightarrow>
                                     (case cl of CL n \<Rightarrow> Some (int existing + n) | _ \<Rightarrow> None));
                              r = read_loop chunks fault (content w3 tmp);
                              w4 = w3\<lparr>files := (files w3)(tmp \<mapsto> snd r)\<rparr>
                          in case fst r of
                               Some e \<Rightarrow> (Inl e, w4)
                             | None \<Rightarrow>
                                 if size_mismatch total_size' (st_size w4 tmp)
                                 then (Inl SizeMismatch, w4)
                                 else (Inr (),
                                       emit (MsgDownloaded (name dest)) (replace tmp dest w4))))))"

function download_loop ::
  "(nat \<Rightarrow> attempt_net) \<Rightarrow> string \<Rightarrow> ppath \<Rightarrow> ppath \<Rightarrow> int \<Rightarrow> nat \<Rightarrow> world
     \<Rightarrow> (error + unit) \<times> world"
where
  \<comment> \<open>the \<^verbatim>\<open>while True\<close> of lines 77 to 134; the sixth argument is \<^verbatim>\<open>attempt\<close> on entry\<close>
  "download_loop net url dest tmp retries attempt0 w =
     (let attempt = attempt0 + 1
      in case attempt_once (net attempt) url dest tmp w of
           (Inr u, w') \<Rightarrow> (Inr u, w')
         | (Inl e, w') \<Rightarrow>
             if retries \<le> int attempt then (Inl e, w')
             else (let wait = 2 ^ attempt
                   in download_loop net url dest tmp retries attempt
                        (emit (Sleep wait) (emit (MsgRetry (name dest) e wait) w'))))"
  by pat_completeness auto
termination
  by (relation "measure (\<lambda>(net, url, dest, tmp, retries, attempt0, w). nat (retries - int attempt0))")
    auto

declare download_loop.simps [simp del]

definition download_with_resume ::
  "(nat \<Rightarrow> attempt_net) \<Rightarrow> string \<Rightarrow> ppath \<Rightarrow> int \<Rightarrow> world \<Rightarrow> (error + unit) \<times> world"
where
  \<comment> \<open>the \<^verbatim>\<open>timeout\<close> argument only reaches the transport and is left out\<close>
  "download_with_resume net url dest retries w =
     (let w0 = mkdir_parents (parent dest) w
      in case with_suffix dest (suffix dest @ ''.part'') of
           Inl e \<Rightarrow> (Inl e, w0)
         | Inr tmp \<Rightarrow> download_loop net url dest tmp retries 0 w0)"

section \<open>The file name of a URL\<close>

definition basename :: "string \<Rightarrow> string" where
  \<comment> \<open>\<^verbatim>\<open>os.path.basename\<close>: what follows the last slash\<close>
  "basename p = rev (takeWhile (\<lambda>c. c \<noteq> CHR ''/'') (rev p))"

definition is_hex :: "char \<Rightarrow> bool" where
  "is_hex c = (c \<in> set ''0123456789ABCDEFabcdef'')"

definition hex_val :: "char \<Rightarrow> nat" where
  "hex_val c =
     (let n = (of_char c :: nat)
      in if 48 \<le> n \<and> n \<le> 57 then n - 48
         else if 65 \<le> n \<and> n \<le> 70 then n - 55
         else n - 87)"

fun unquote_to_bytes :: "string \<Rightarrow> string" where
  \<comment> \<open>\<^verbatim>\<open>urllib.parse.unquote_to_bytes\<close>: a percent sign followed by two hexadecimal
      digits is one byte, any other percent sign stays\<close>
  "unquote_to_bytes (c # a # b # rest) =
     (if c = CHR ''%'' \<and> is_hex a \<and> is_hex b
      then char_of (16 * hex_val a + hex_val b) # unquote_to_bytes rest
      else c # unquote_to_bytes (a # b # rest))"
| "unquote_to_bytes cs = cs"

definition is_ascii :: "char \<Rightarrow> bool" where
  "is_ascii c = ((of_char c :: nat) < 128)"

fun runs :: "('a \<Rightarrow> bool) \<Rightarrow> 'a list \<Rightarrow> 'a list list" where
  \<comment> \<open>the maximal runs of elements on which \<open>P\<close> has the same value\<close>
  "runs P [] = []"
| "runs P (x # xs) =
     (case runs P xs of
        [] \<Rightarrow> [[x]]
      | r # rs \<Rightarrow> if r \<noteq> [] \<and> P (hd r) = P x then (x # r) # rs else [x] # r # rs)"

definition unquote :: "lib \<Rightarrow> string \<Rightarrow> string" where
  \<comment> \<open>\<^verbatim>\<open>urllib.parse.unquote\<close>: the ASCII runs are percent-decoded and then decoded as
      UTF-8, the other characters stay\<close>
  "unquote L s =
     (if CHR ''%'' \<notin> set s then s
      else concat (map (\<lambda>r. if r \<noteq> [] \<and> is_ascii (hd r)
                             then utf8_decode L (unquote_to_bytes r) else r)
                     (runs is_ascii s)))"

definition invalid :: string where
  \<comment> \<open>line 180: the characters \<^verbatim>\<open><>:"\|?*\<close>\<close>
  "invalid = [CHR ''<'', CHR ''>'', CHR '':'', CHR 0x22, CHR 0x5C, CHR ''|'', CHR ''?'', CHR ''*'']"

definition raw_fname :: "lib \<Rightarrow> string \<Rightarrow> string" where
  \<comment> \<open>lines 176 and 177\<close>
  "raw_fname L url = unquote L (basename (url_path L url))"

definition safe_fname :: "lib \<Rightarrow> string \<Rightarrow> string" where
  \<comment> \<open>line 181\<close>
  "safe_fname L url = strip (filter (\<lambda>ch. ch \<notin> set invalid) (raw_fname L url))"

section \<open>The command line program\<close>

record args =
  base_url :: string
  dest_root :: ppath  \<comment> \<open>\<^verbatim>\<open>Path(args.dest).resolve()\<close>\<close>
  skip_existing :: bool
  force_reextract :: bool

definition process_url :: "lib \<Rightarrow> args \<Rightarrow> world \<Rightarrow> string \<Rightarrow> world" where
  \<comment> \<open>one iteration of the loop of lines 175 to 211; every branch ends the iteration\<close>
  "process_url L A w url =
     (let fname = raw_fname L url;
          sf = safe_fname L url
      in if sf = [] then emit (MsgInvalidName fname) w
         else
           (let zip_path = joinpath (dest_root A) sf
            in case (if exists_path w zip_path \<and> skip_existing A
                     then (Inr (), emit (MsgSkipped sf) w)
                     else download_with_resume (server L url) url zip_path 3 w) of
                 (Inl e, w1) \<Rightarrow> emit (MsgDownloadFailed sf e) w1
               | (Inr u, w1) \<Rightarrow>
                   (let extract_dir = joinpath (dest_root A) (stem zip_path)
                    in if exists_path w1 extract_dir \<and> \<not> force_reextract A
                       then emit (MsgAlreadyExtracted (name extract_dir)) w1
                       else
                         (let w2 = (if exists_path w1 extract_dir \<and> force_reextract A
                                    then rmtree extract_dir (emit (MsgCleaning extract_dir) w1)
                                    else w1);
                              w3 = emit (MsgExtracting sf (name extract_dir)) w2
                          in case safe_extract_zip L zip_path extract_dir w3 of
                               (Inr u', w4) \<Rightarrow> emit (MsgExtracted extract_dir) w4
                             | (Inl e, w4) \<Rightarrow> emit (MsgExtractFailed sf e) w4))))"

fun process_urls :: "lib \<Rightarrow> args \<Rightarrow> world \<Rightarrow> string list \<Rightarrow> world" where
  \<comment> \<open>the \<^verbatim>\<open>for\<close> loop of line 175\<close>
  "process_urls L A w [] = w"
| "process_urls L A w (url # urls) = process_urls L A (process_url L A w url) urls"

definition main :: "lib \<Rightarrow> args \<Rightarrow> world \<Rightarrow> int \<times> world" where
  \<comment> \<open>the exit code and the world the process leaves\<close>
  "main L A w =
     (let w0 = emit (MsgScanning (base_url A)) (mkdir_parents (dest_root A) w)
      in case list_zip_urls L (base_url A) of
           Inl e \<Rightarrow> (1, emit (MsgReadFailed e) w0)
         | Inr zip_urls \<Rightarrow>
             if zip_urls = [] then (0, emit MsgNoZip w0)
             else (0, process_urls L A (emit (MsgFound (length zip_urls)) w0) zip_urls))"

section \<open>Specification-level definitions\<close>



fun first_occurrences :: "'a list \<Rightarrow> 'a list" where
  "first_occurrences [] = []"
| "first_occurrences (x # xs) = x # first_occurrences (filter (\<lambda>y. y \<noteq> x) xs)"



text \<open>
  A file tree is well formed when everything that exists, the top apart, lies in a
  directory that exists.
\<close>

definition wf_tree :: "world \<Rightarrow> bool" where
  "wf_tree w = (\<forall>p. exists_path w p \<and> comps p \<noteq> [] \<longrightarrow> parent p \<in> dirs w)"

text \<open>
  What a run of the downloader leaves in the trace: every attempt starts with exactly one
  HEAD request, so the attempts made are the HEAD requests; the sleeps are the arguments
  of \<^verbatim>\<open>time.sleep\<close> in order.
\<close>

definition is_head :: "event \<Rightarrow> bool" where
  "is_head e = (case e of Head u \<Rightarrow> True | _ \<Rightarrow> False)"

definition attempts_made :: "event list \<Rightarrow> nat" where
  "attempts_made evs = length (filter is_head evs)"

fun sleeps :: "event list \<Rightarrow> nat list" where
  "sleeps [] = []"
| "sleeps (Sleep n # evs) = n # sleeps evs"
| "sleeps (e # evs) = sleeps evs"

text \<open>
  \<^verbatim>\<open>total_size\<close> as it stands at line 123 when the transfer was started: the total of
  the HEAD response, or else the staging size plus the \<^verbatim>\<open>Content-Length\<close> of the GET
  response. The bytes a response delivers are its chunks up to the first empty one.
\<close>

definition expected_total :: "attempt_net \<Rightarrow> nat \<Rightarrow> int option" where
  "expected_total net existing =
     (case head_total net of
        Some t \<Rightarrow> Some t
      | None \<Rightarrow>
          (case get_result net of
             GetOk (CL n) chunks fault \<Rightarrow> Some (int existing + n)
           | _ \<Rightarrow> None))"

definition received :: "string list \<Rightarrow> string" where
  "received chunks = concat (takeWhile (\<lambda>c. c \<noteq> []) chunks)"

section \<open>Example inputs\<close>

text \<open>
  A small index page, two archives and a file tree, used to run the theorems below on
  concrete inputs. The example library resolves a link by appending it to the base URL,
  takes the path of a URL of the host \<^verbatim>\<open>http://h\<close> by dropping the first eight
  characters, and decodes ASCII bytes to themselves.
\<close>

definition ex_tags :: "(string \<times> attrs) list" where
  "ex_tags =
     [(''a'', [(''href'', Some ''game1.zip'')]),
      (''a'', [(''href'', Some ''GAME1.ZIP'')]),
      (''a'', [(''href'', Some ''readme.txt'')]),
      (''img'', [(''src'', Some ''logo.zip'')]),
      (''a'', [(''href'', Some '' game1.zip'')])]"

definition ex_evil_members :: "zentry list" where
  "ex_evil_members =
     [\<lparr>filename = ''ok.txt'', data = Some ''x''\<rparr>,
      \<lparr>filename = ''../../etc/passwd'', data = Some ''y''\<rparr>]"

definition ex_members :: "string \<Rightarrow> zentry list option" where
  "ex_members bs =
     (if bs = ''good'' then Some [\<lparr>filename = ''rom/a.gba'', data = Some ''A''\<rparr>]
      else if bs = ''evil'' then Some ex_evil_members
      else None)"

definition ex_down :: "string \<Rightarrow> nat \<Rightarrow> attempt_net" where
  \<comment> \<open>a network that is down\<close>
  "ex_down url n = \<lparr>head_total = None, get_result = GetFails (LibError ''URLError'')\<rparr>"

definition ex_lib :: lib where
  "ex_lib =
     \<lparr>fetch_html = (\<lambda>u. if u = ''http://h/d/'' then Inr ''page'' else Inl (LibError ''URLError'')),
      html_starttags = (\<lambda>h. Inr ex_tags),
      urljoin = (\<lambda>b h. Inr (b @ h)),
      url_path = drop 8,
      utf8_decode = (\<lambda>bs. bs),
      read_zip = ex_members,
      server = ex_down\<rparr>"

definition ex_zip :: ppath where
  "ex_zip = PPath True [''d'', ''evil.zip'']"

definition ex_dir :: ppath where
  "ex_dir = PPath True [''d'', ''evil'']"

definition ex_world :: world where
  "ex_world =
     \<lparr>files = [ex_zip \<mapsto> ''evil''],
      dirs = {PPath True [], PPath True [''d'']},
      trace = []\<rparr>"

text \<open>
  A download of \<^verbatim>\<open>http://h/d/a.zip\<close> to \<^verbatim>\<open>/d/a.zip\<close> whose staging file already
  holds five bytes, and servers that declare a total of 3, 5, 0 or 8 bytes.
\<close>

definition ex_url :: string where
  "ex_url = ''http://h/d/a.zip''"

definition ex_file :: ppath where
  "ex_file = PPath True [''d'', ''a.zip'']"

definition ex_part :: ppath where
  "ex_part = PPath True [''d'', ''a.zip.part'']"

definition ex_partial :: world where
  "ex_partial =
     \<lparr>files = [ex_part \<mapsto> ''abcde''],
      dirs = {PPath True [], PPath True [''d'']},
      trace = []\<rparr>"

definition ex_net_total3 :: "nat \<Rightarrow> attempt_net" where
  "ex_net_total3 n = \<lparr>head_total = Some 3, get_result = GetFails (LibError ''URLError'')\<rparr>"

definition ex_net_total5 :: "nat \<Rightarrow> attempt_net" where
  "ex_net_total5 n = \<lparr>head_total = Some 5, get_result = GetFails (LibError ''URLError'')\<rparr>"

definition ex_net_total0 :: "nat \<Rightarrow> attempt_net" where
  "ex_net_total0 n = \<lparr>head_total = Some 0, get_result = GetOk NoCL [''fgh''] None\<rparr>"


definition ex_net_short :: "nat \<Rightarrow> attempt_net" where
  "ex_net_short n = \<lparr>head_total = Some 8, get_result = GetOk (CL 3) [''fg''] None\<rparr>"

text \<open>
  A run of the whole program on the example page, a server that delivers the archive
  with the unsafe member for every URL, and two links whose last segment hides a slash
  behind a percent escape.
\<close>

definition ex_args :: args where
  "ex_args = \<lparr>base_url = ''http://h/d/'', dest_root = PPath True [''d''],
              skip_existing = False, force_reextract = False\<rparr>"

definition ex_serve :: "string \<Rightarrow> nat \<Rightarrow> attempt_net" where
  "ex_serve url n = \<lparr>head_total = Some 4, get_result = GetOk (CL 4) [''evil''] None\<rparr>"

definition ex_lib_up :: lib where
  "ex_lib_up = ex_lib\<lparr>server := ex_serve\<rparr>"

definition ex_bad_url :: string where
  "ex_bad_url = ''http://h/d/%2E%2E%2Fevil.zip''"

definition ex_sub_url :: string where
  "ex_sub_url = ''http://h/d/a%2Fb.zip''"

definition ex_empty :: world where
  "ex_empty = \<lparr>files = Map.empty, dirs = {PPath True []}, trace = []\<rparr>"



definition ex_lib_trav :: lib where
  \<comment> \<open>an index page whose only link is \<^verbatim>\<open>%2E%2E%2Fevil.zip\<close>\<close>
  "ex_lib_trav =
     ex_lib_up\<lparr>html_starttags := (\<lambda>h. Inr [(''a'', [(''href'', Some ''%2E%2E%2Fevil.zip'')])])\<rparr>"

section \<open>Link discovery returns the first occurrences of the resolved links\<close>

lemma endswith_lower_Nil [simp]: "\<not> endswith (lower []) ''.zip''"
  by (simp add: endswith_def lower_def)



lemma set_first_occurrences [simp]: "set (first_occurrences xs) = set xs"
  by (induction xs rule: first_occurrences.induct) auto

lemma distinct_first_occurrences: "distinct (first_occurrences xs)"
  by (induction xs rule: first_occurrences.induct) auto





section \<open>Safe extraction validates before it writes\<close>

lemma files_mkdir_parents [simp]: "files (mkdir_parents p w) = files w"
  by (simp add: mkdir_parents_def)

lemma trace_mkdir_parents [simp]: "trace (mkdir_parents p w) = trace w"
  by (simp add: mkdir_parents_def)

lemma dirs_mkdir_parents: "dirs (mkdir_parents p w) = dirs w \<union> set (ancestors_self p)"
  by (simp add: mkdir_parents_def)

lemma self_in_ancestors: "p \<in> set (ancestors_self p)"
proof -
  have "PPath (is_absolute p) (take (length (comps p)) (comps p)) \<in> set (ancestors_self p)"
    unfolding ancestors_self_def set_map by (rule imageI) simp
  then show ?thesis by simp
qed

lemma ancestors_not_strictly_below:
  "q \<in> set (ancestors_self d) \<Longrightarrow> below d q \<Longrightarrow> q = d"
  by (cases d; cases q) (auto simp: ancestors_self_def below_def)

lemma open_zip_mkdir [simp]: "open_zip L (mkdir_parents d w) z = open_zip L w z"
  by (simp add: open_zip_def)

lemma check_members_Inr: "check_members ms = Inr u \<longleftrightarrow> (\<forall>m \<in> set ms. \<not> suspicious m)"
  by (induction ms) auto

lemma check_members_Inl:
  "check_members ms = Inl e \<Longrightarrow> \<exists>m \<in> set ms. suspicious m \<and> e = RuntimeError (filename m)"
  by (induction ms) (auto split: if_splits)

lemma extract_member_error: "extract_member d m w = (Inl e, w') \<Longrightarrow> e = LibError ''BadZipFile''"
  by (auto simp: extract_member_def Let_def split: if_splits option.splits)

lemma extractall_error: "extractall ms d w = (Inl e, w') \<Longrightarrow> e = LibError ''BadZipFile''"
proof (induction ms arbitrary: w)
  case Nil
  then show ?case by simp
next
  case (Cons m ms)
  obtain r w1 where em: "extract_member d m w = (r, w1)" by (cases "extract_member d m w")
  show ?case
  proof (cases r)
    case (Inl e1)
    with em Cons.prems show ?thesis by (auto dest: extract_member_error)
  next
    case (Inr u)
    with em Cons.prems have "extractall ms d w1 = (Inl e, w')" by simp
    then show ?thesis by (rule Cons.IH)
  qed
qed

lemma ex_open_zip: "open_zip ex_lib ex_world ex_zip = Inr ex_evil_members"
  by (simp add: open_zip_def ex_world_def ex_lib_def ex_members_def)

lemma ex_suspicious:
  "\<not> suspicious \<lparr>filename = ''ok.txt'', data = Some ''x''\<rparr>"
  "suspicious \<lparr>filename = ''../../etc/passwd'', data = Some ''y''\<rparr>"
  by (simp_all add: suspicious_def Path_def parts_def)

text \<open>
  Claim C1. When the archive can be read, safe extraction looks at the stored path of
  every member first. If some member's path is absolute or has a \<^verbatim>\<open>..\<close> component,
  the call fails with the error that names such a member, and the world it leaves is
  the one in which only the target directory was made: no member has been written, the
  files are those from before. Only if every member passes is the archive expanded.
\<close>

theorem safe_extract_zip_validates_first:
  assumes "open_zip L w zip_path = Inr ms"
  shows "if \<exists>m \<in> set ms. suspicious m
         then (\<exists>m \<in> set ms. suspicious m \<and>
                 safe_extract_zip L zip_path extract_dir w =
                   (Inl (RuntimeError (filename m)), mkdir_parents extract_dir w)) \<and>
              files (snd (safe_extract_zip L zip_path extract_dir w)) = files w
         else safe_extract_zip L zip_path extract_dir w =
                extractall ms extract_dir (mkdir_parents extract_dir w)"
proof (cases "check_members ms")
  case (Inl e)
  then obtain m where m: "m \<in> set ms" "suspicious m" "e = RuntimeError (filename m)"
    by (auto dest: check_members_Inl)
  from assms Inl
  have "safe_extract_zip L zip_path extract_dir w = (Inl e, mkdir_parents extract_dir w)"
    by (simp add: safe_extract_zip_def)
  with m show ?thesis by auto
next
  case (Inr u)
  then have "\<forall>m \<in> set ms. \<not> suspicious m" by (simp add: check_members_Inr)
  moreover from assms Inr have "safe_extract_zip L zip_path extract_dir w =
      extractall ms extract_dir (mkdir_parents extract_dir w)"
    by (simp add: safe_extract_zip_def)
  ultimately show ?thesis by auto
qed

theorem safe_extract_zip_validates_first_witness:
  "open_zip ex_lib ex_world ex_zip = Inr ex_evil_members \<and>
   safe_extract_zip ex_lib ex_zip ex_dir ex_world =
     (Inl (RuntimeError ''../../etc/passwd''), mkdir_parents ex_dir ex_world) \<and>
   files (snd (safe_extract_zip ex_lib ex_zip ex_dir ex_world)) = files ex_world"
proof -
  have "\<exists>m \<in> set ex_evil_members. suspicious m"
    by (simp add: ex_evil_members_def ex_suspicious)
  with safe_extract_zip_validates_first [OF ex_open_zip, of ex_dir]
  have "(\<exists>m \<in> set ex_evil_members. suspicious m \<and>
           safe_extract_zip ex_lib ex_zip ex_dir ex_world =
             (Inl (RuntimeError (filename m)), mkdir_parents ex_dir ex_world)) \<and>
        files (snd (safe_extract_zip ex_lib ex_zip ex_dir ex_world)) = files ex_world"
    by simp
  then show ?thesis
    using ex_open_zip by (auto simp: ex_evil_members_def ex_suspicious)
qed

section \<open>A rejected extraction leaves the directory it made and nothing else\<close>

lemma safe_extract_zip_RuntimeError:
  assumes "safe_extract_zip L zip_path extract_dir w = (Inl (RuntimeError n), w')"
  shows "w' = mkdir_parents extract_dir w"
proof (cases "open_zip L w zip_path")
  case (Inl e)
  with assms show ?thesis by (simp add: safe_extract_zip_def)
next
  case (Inr ms)
  show ?thesis
  proof (cases "check_members ms")
    case (Inl e)
    with Inr assms show ?thesis by (simp add: safe_extract_zip_def)
  next
    case (Inr u)
    with \<open>open_zip L w zip_path = Inr ms\<close> assms
    have "extractall ms extract_dir (mkdir_parents extract_dir w) = (Inl (RuntimeError n), w')"
      by (simp add: safe_extract_zip_def)
    then show ?thesis by (auto dest: extractall_error)
  qed
qed

lemma below_same_length:
  "below d p \<Longrightarrow> length (comps p) = length (comps d) \<Longrightarrow> p = d"
  by (cases p; cases d) (simp add: below_def)

lemma below_parent:
  "below d p \<Longrightarrow> length (comps d) < length (comps p) \<Longrightarrow> below d (parent p)"
  by (simp add: below_def parent_def take_butlast)

lemma wf_tree_up_aux:
  assumes wf: "wf_tree w"
  shows "length (comps p) = length (comps d) + k \<Longrightarrow> exists_path w p \<Longrightarrow> below d p
           \<Longrightarrow> exists_path w d"
proof (induction k arbitrary: p)
  case 0
  then have "p = d" by (simp add: below_same_length)
  with 0 show ?case by simp
next
  case (Suc k)
  from Suc.prems(1) have ne: "comps p \<noteq> []" by auto
  with wf Suc.prems(2) have "parent p \<in> dirs w" by (simp add: wf_tree_def)
  then have ex: "exists_path w (parent p)" by (simp add: exists_path_def)
  from Suc.prems(1,3) have b: "below d (parent p)" by (simp add: below_parent)
  from Suc.prems(1) have len: "length (comps (parent p)) = length (comps d) + k"
    by (simp add: parent_def)
  from len ex b show ?case by (rule Suc.IH)
qed

lemma wf_tree_up:
  assumes "wf_tree w" and "exists_path w p" and "below d p"
  shows "exists_path w d"
proof -
  from assms(3) have "length (comps p) = length (comps d) + (length (comps p) - length (comps d))"
    by (simp add: below_def)
  with assms show ?thesis by (blast intro: wf_tree_up_aux)
qed

lemma ex_world_wf: "wf_tree ex_world"
  by (auto simp: wf_tree_def ex_world_def ex_zip_def exists_path_def parent_def split: if_splits)

lemma ex_dir_new: "\<not> exists_path ex_world ex_dir"
  by (simp add: ex_world_def ex_dir_def ex_zip_def exists_path_def)

text \<open>
  Claim C10. Safe extraction makes the target directory, with its parents, before it
  validates. So when the archive is rejected for an absolute or \<^verbatim>\<open>..\<close> path, the world
  left behind is exactly the one after that directory creation: the directory exists,
  the directories are the old ones and the target with its ancestors, the files and
  the trace are unchanged. If the tree was well formed and the target did not exist, it
  is new and empty: nothing exists beneath it.
\<close>

theorem rejected_extraction_only_creates_directory:
  assumes "safe_extract_zip L zip_path extract_dir w = (Inl (RuntimeError n), w')"
  shows "w' = mkdir_parents extract_dir w \<and>
         extract_dir \<in> dirs w' \<and>
         dirs w' = dirs w \<union> set (ancestors_self extract_dir) \<and>
         files w' = files w \<and>
         trace w' = trace w \<and>
         (wf_tree w \<and> \<not> exists_path w extract_dir \<longrightarrow>
            (\<forall>p. below extract_dir p \<and> p \<noteq> extract_dir \<longrightarrow> \<not> exists_path w' p))"
proof -
  have eq: "w' = mkdir_parents extract_dir w"
    using assms by (rule safe_extract_zip_RuntimeError)
  have empty: "\<not> exists_path w' p"
    if wf: "wf_tree w" and new: "\<not> exists_path w extract_dir"
      and b: "below extract_dir p" and ne: "p \<noteq> extract_dir" for p
  proof
    assume "exists_path w' p"
    then have "exists_path w p \<or> p \<in> set (ancestors_self extract_dir)"
      by (auto simp: eq exists_path_def dirs_mkdir_parents)
    then show False
    proof
      assume "exists_path w p"
      with wf have "exists_path w extract_dir" using b by (rule wf_tree_up)
      with new show False by simp
    next
      assume "p \<in> set (ancestors_self extract_dir)"
      then have "p = extract_dir" using b by (rule ancestors_not_strictly_below)
      with ne show False by simp
    qed
  qed
  show ?thesis
    using empty by (auto simp: eq dirs_mkdir_parents self_in_ancestors)
qed

theorem rejected_extraction_only_creates_directory_witness:
  "safe_extract_zip ex_lib ex_zip ex_dir ex_world =
     (Inl (RuntimeError ''../../etc/passwd''), mkdir_parents ex_dir ex_world) \<and>
   wf_tree ex_world \<and> \<not> exists_path ex_world ex_dir \<and>
   ex_dir \<in> dirs (mkdir_parents ex_dir ex_world) \<and>
   files (mkdir_parents ex_dir ex_world) = files ex_world \<and>
   \<not> exists_path (mkdir_parents ex_dir ex_world) (PPath True [''d'', ''evil'', ''ok.txt''])"
proof -
  have sub: "below ex_dir (PPath True [''d'', ''evil'', ''ok.txt'']) \<and>
      PPath True [''d'', ''evil'', ''ok.txt''] \<noteq> ex_dir"
    by (simp add: below_def ex_dir_def)
  have "check_members ex_evil_members = Inl (RuntimeError ''../../etc/passwd'')"
    by (simp add: ex_evil_members_def ex_suspicious)
  then have run: "safe_extract_zip ex_lib ex_zip ex_dir ex_world =
      (Inl (RuntimeError ''../../etc/passwd''), mkdir_parents ex_dir ex_world)"
    by (simp add: safe_extract_zip_def ex_open_zip)
  from rejected_extraction_only_creates_directory [OF run] run ex_world_wf ex_dir_new sub
  show ?thesis by blast
qed

section \<open>The retry loop\<close>

lemma read_loop_received: "snd (read_loop chunks fault bs) = bs @ received chunks"
  by (induction chunks arbitrary: bs) (auto simp: received_def)

lemma read_loop_fault: "fst (read_loop chunks fault bs) = (if [] \<in> set chunks then None else fault)"
  by (induction chunks arbitrary: bs) auto

lemma files_emit [simp]: "files (emit e w) = files w"
  by (simp add: emit_def)

lemma dirs_emit [simp]: "dirs (emit e w) = dirs w"
  by (simp add: emit_def)

lemma trace_emit [simp]: "trace (emit e w) = trace w @ [e]"
  by (simp add: emit_def)

lemma trace_replace [simp]: "trace (replace a b w) = trace w"
  by (simp add: replace_def)

lemma files_replace: "files (replace a b w) = (files w)(b := files w a, a := None)"
  by (simp add: replace_def)

lemma trace_open_staging [simp]: "trace (open_staging t n w) = trace w"
  by (simp add: open_staging_def)

lemma sleeps_append [simp]: "sleeps (xs @ ys) = sleeps xs @ sleeps ys"
  by (induction xs rule: sleeps.induct) auto

lemma attempts_made_append [simp]: "attempts_made (xs @ ys) = attempts_made xs + attempts_made ys"
  by (simp add: attempts_made_def)

lemma attempt_once_trace:
  "\<exists>evs. trace (snd (attempt_once net url dest tmp w)) = trace w @ Head url # evs \<and>
         attempts_made evs = 0 \<and> sleeps evs = []"
  by (auto simp: attempt_once_def Let_def attempts_made_def is_head_def
           split: get_result.splits option.splits)


lemma attempt_once_fail_staging:
  assumes "attempt_once net url dest tmp w = (Inl e, w')" and "files w tmp = Some bs"
  shows "\<exists>rest. files w' tmp = Some (bs @ rest)"
  using assms
  by (auto simp: attempt_once_def Let_def open_staging_def st_size_def content_def
        read_loop_received split: get_result.splits option.splits if_splits)

lemma attempt_once_fail_dest:
  assumes "attempt_once net url dest tmp w = (Inl e, w')" and "tmp \<noteq> dest"
  shows "files w' dest = files w dest"
  using assms
  by (auto simp: attempt_once_def Let_def open_staging_def
        split: get_result.splits option.splits if_splits)

lemma attempt_once_ok_staging:
  assumes "attempt_once net url dest tmp w = (Inr u, w')" and "files w tmp = Some bs"
    and "tmp \<noteq> dest"
  shows "\<exists>rest. files w' dest = Some (bs @ rest) \<and> files w' tmp = None"
  using assms
  by (auto simp: attempt_once_def Let_def open_staging_def st_size_def content_def
        read_loop_received files_replace split: get_result.splits option.splits if_splits)

lemma download_loop_staging:
  "tmp \<noteq> dest \<Longrightarrow> files w tmp = Some bs \<Longrightarrow>
   download_loop net url dest tmp retries a w = (r, w') \<Longrightarrow>
   \<exists>rest. (case r of Inl e \<Rightarrow> files w' tmp | Inr u \<Rightarrow> files w' dest) = Some (bs @ rest)"
proof (induction net url dest tmp retries a w arbitrary: bs rule: download_loop.induct)
  case (1 net url dest tmp retries attempt0 w)
  note ne = "1.prems"(1) and fb = "1.prems"(2) and dl = "1.prems"(3)
  obtain r1 w1 where att: "attempt_once (net (attempt0 + 1)) url dest tmp w = (r1, w1)"
    by (cases "attempt_once (net (attempt0 + 1)) url dest tmp w")
  show ?case
  proof (cases r1)
    case (Inr u)
    with att dl have rw: "r = Inr u" "w' = w1"
      by (simp_all add: download_loop.simps [of net url dest tmp retries attempt0 w])
    from att Inr fb ne obtain rest where "files w1 dest = Some (bs @ rest)"
      using attempt_once_ok_staging by blast
    with rw show ?thesis by auto
  next
    case (Inl e)
    from att Inl fb obtain rest1 where r1: "files w1 tmp = Some (bs @ rest1)"
      using attempt_once_fail_staging by blast
    show ?thesis
    proof (cases "retries \<le> int (attempt0 + 1)")
      case True
      with att Inl dl have "r = Inl e" "w' = w1"
        by (simp_all add: download_loop.simps [of net url dest tmp retries attempt0 w])
      with r1 show ?thesis by auto
    next
      case False
      let ?w2 = "emit (Sleep (2 ^ (attempt0 + 1)))
                   (emit (MsgRetry (name dest) e (2 ^ (attempt0 + 1))) w1)"
      from att Inl False dl
      have run: "download_loop net url dest tmp retries (attempt0 + 1) ?w2 = (r, w')"
        by (simp add: download_loop.simps [of net url dest tmp retries attempt0 w] Let_def)
      have f2: "files ?w2 tmp = Some (bs @ rest1)" using r1 by simp
      from "1.IH" [OF refl att [symmetric] Inl False refl ne f2 run]
      obtain rest where "(case r of Inl e \<Rightarrow> files w' tmp | Inr u \<Rightarrow> files w' dest)
          = Some ((bs @ rest1) @ rest)" by blast
      then show ?thesis by auto
    qed
  qed
qed

lemma download_loop_keeps_attempt:
  assumes ne: "tmp \<noteq> dest"
    and att: "attempt_once (net (Suc a)) url dest tmp w = (Inl e, w1)"
    and f1: "files w1 tmp = Some bs1"
    and dl: "download_loop net url dest tmp retries a w = (r, w')"
  shows "\<exists>rest. (case r of Inl e \<Rightarrow> files w' tmp | Inr u \<Rightarrow> files w' dest) = Some (bs1 @ rest)"
proof (cases "retries \<le> int (Suc a)")
  case True
  with att dl have "r = Inl e" "w' = w1"
    by (simp_all add: download_loop.simps [of net url dest tmp retries a w])
  with f1 show ?thesis by simp
next
  case False
  let ?w2 = "emit (Sleep (2 ^ Suc a)) (emit (MsgRetry (name dest) e (2 ^ Suc a)) w1)"
  from att False dl have "download_loop net url dest tmp retries (Suc a) ?w2 = (r, w')"
    by (simp add: download_loop.simps [of net url dest tmp retries a w] Let_def)
  moreover have "files ?w2 tmp = Some bs1" using f1 by simp
  ultimately show ?thesis using download_loop_staging [OF ne] by blast
qed

lemma download_loop_run:
  "\<exists>k evs. trace (snd (download_loop net url dest tmp retries a w)) = trace w @ evs \<and>
      attempts_made evs = k \<and> 1 \<le> k \<and> int (a + k) \<le> max (int a + 1) retries \<and>
      sleeps evs = map (\<lambda>i. 2 ^ i) [a + 1 ..< a + k] \<and>
      (\<forall>e. fst (download_loop net url dest tmp retries a w) = Inl e \<longrightarrow>
         retries \<le> int (a + k) \<and>
         (\<exists>w0. attempt_once (net (a + k)) url dest tmp w0 =
                  (Inl e, snd (download_loop net url dest tmp retries a w))))"
proof (induction net url dest tmp retries a w rule: download_loop.induct)
  case (1 net url dest tmp retries attempt0 w)
  obtain r1 w1 where att: "attempt_once (net (attempt0 + 1)) url dest tmp w = (r1, w1)"
    by (cases "attempt_once (net (attempt0 + 1)) url dest tmp w")
  from attempt_once_trace [of "net (attempt0 + 1)" url dest tmp w] att
  obtain evs1 where t1: "trace w1 = trace w @ Head url # evs1"
    and a1: "attempts_made evs1 = 0" and s1: "sleeps evs1 = []" by auto
  have h1: "attempts_made (Head url # evs1) = 1"
    using a1 by (simp add: attempts_made_def is_head_def)
  have sl1: "sleeps (Head url # evs1) = []" using s1 by simp
  show ?case
  proof (cases r1)
    case (Inr u)
    with att have res: "download_loop net url dest tmp retries attempt0 w = (Inr u, w1)"
      by (simp add: download_loop.simps [of net url dest tmp retries attempt0 w])
    show ?thesis
      apply (rule exI [of _ 1], rule exI [of _ "Head url # evs1"])
      using res t1 h1 sl1 by simp
  next
    case (Inl e)
    show ?thesis
    proof (cases "retries \<le> int (attempt0 + 1)")
      case True
      with att Inl have res: "download_loop net url dest tmp retries attempt0 w = (Inl e, w1)"
        by (simp add: download_loop.simps [of net url dest tmp retries attempt0 w])
      show ?thesis
        apply (rule exI [of _ 1], rule exI [of _ "Head url # evs1"])
        using res t1 h1 sl1 True att Inl by auto
    next
      case False
      let ?w2 = "emit (Sleep (2 ^ (attempt0 + 1)))
                   (emit (MsgRetry (name dest) e (2 ^ (attempt0 + 1))) w1)"
      from att Inl False
      have res: "download_loop net url dest tmp retries attempt0 w =
          download_loop net url dest tmp retries (attempt0 + 1) ?w2"
        by (simp add: download_loop.simps [of net url dest tmp retries attempt0 w] Let_def)
      from "1.IH" [OF refl att [symmetric] Inl False refl]
      obtain k evs where
        tr: "trace (snd (download_loop net url dest tmp retries (attempt0 + 1) ?w2)) = trace ?w2 @ evs"
        and am: "attempts_made evs = k" and k1: "1 \<le> k"
        and bd: "int (attempt0 + 1 + k) \<le> max (int (attempt0 + 1) + 1) retries"
        and sl: "sleeps evs = map (\<lambda>i. 2 ^ i) [attempt0 + 1 + 1 ..< attempt0 + 1 + k]"
        and er: "\<forall>e. fst (download_loop net url dest tmp retries (attempt0 + 1) ?w2) = Inl e \<longrightarrow>
           retries \<le> int (attempt0 + 1 + k) \<and>
           (\<exists>w0. attempt_once (net (attempt0 + 1 + k)) url dest tmp w0 =
              (Inl e, snd (download_loop net url dest tmp retries (attempt0 + 1) ?w2)))"
        by blast
      let ?evs = "(Head url # evs1) @
          [MsgRetry (name dest) e (2 ^ (attempt0 + 1)), Sleep (2 ^ (attempt0 + 1))] @ evs"
      have c1: "trace (snd (download_loop net url dest tmp retries attempt0 w)) = trace w @ ?evs"
        using res tr t1 by simp
      have c2: "attempts_made ?evs = Suc k"
        using h1 am by (simp add: attempts_made_def is_head_def)
      have c3: "int (attempt0 + Suc k) \<le> max (int attempt0 + 1) retries"
        using bd False by simp
      have "[attempt0 + 1 ..< attempt0 + Suc k] = (attempt0 + 1) # [attempt0 + 1 + 1 ..< attempt0 + 1 + k]"
        using k1 by (simp add: upt_conv_Cons)
      then have c4: "sleeps ?evs = map (\<lambda>i. 2 ^ i) [attempt0 + 1 ..< attempt0 + Suc k]"
        using sl sl1 by simp
      have c5: "\<forall>e. fst (download_loop net url dest tmp retries attempt0 w) = Inl e \<longrightarrow>
         retries \<le> int (attempt0 + Suc k) \<and>
         (\<exists>w0. attempt_once (net (attempt0 + Suc k)) url dest tmp w0 =
                  (Inl e, snd (download_loop net url dest tmp retries attempt0 w)))"
        using er res by simp
      show ?thesis
        apply (rule exI [of _ "Suc k"], rule exI [of _ ?evs])
        using c1 c2 c3 c4 c5 by simp
    qed
  qed
qed


lemma with_suffix_part:
  assumes "with_suffix p (suffix p @ ''.part'') = Inr q"
  shows "q = PPath (is_absolute p) (butlast (comps p) @ [name p @ ''.part'']) \<and> name p \<noteq> []"
proof -
  have nm: "name p \<noteq> []" using assms by (auto simp: with_suffix_def split: if_splits)
  have "take (length (name p) - length (suffix p)) (name p) @ suffix p = name p"
    by (auto simp: suffix_def Let_def split: option.splits)
  then have "(if suffix p = [] then name p @ suffix p @ ''.part''
      else take (length (name p) - length (suffix p)) (name p) @ suffix p @ ''.part'') =
      name p @ ''.part''"
    by (metis append_assoc append_Nil)
  with assms show ?thesis
    using nm by (auto simp: with_suffix_def Let_def split: if_splits)
qed

lemma staging_differs:
  assumes "with_suffix p (suffix p @ ''.part'') = Inr q"
  shows "q \<noteq> p"
proof
  assume "q = p"
  with with_suffix_part [OF assms] have c: "comps p = butlast (comps p) @ [name p @ ''.part'']"
    and nm: "name p \<noteq> []" by (cases p, auto)+
  from nm have ne: "comps p \<noteq> []" by (auto simp: name_def)
  from c have "last (comps p) = name p @ ''.part''" by (metis last_snoc)
  with ne show False by (simp add: name_def)
qed

lemma download_with_resume_loop:
  "with_suffix dest (suffix dest @ ''.part'') = Inr tmp \<Longrightarrow>
   download_with_resume net url dest retries w =
     download_loop net url dest tmp retries 0 (mkdir_parents (parent dest) w)"
  by (simp add: download_with_resume_def)

lemma ex_with_suffix: "with_suffix ex_file (suffix ex_file @ ''.part'') = Inr ex_part"
  by code_simp

lemma download_with_resume_named:
  assumes tmp: "with_suffix dest (suffix dest @ ''.part'') = Inr tmp"
  shows "\<exists>k evs.
      trace (snd (download_with_resume net url dest retries w)) = trace w @ evs \<and>
      attempts_made evs = k \<and> 1 \<le> k \<and> int k \<le> max 1 retries \<and>
      sleeps evs = map (\<lambda>i. 2 ^ i) [1 ..< k] \<and>
      (\<forall>e. fst (download_with_resume net url dest retries w) = Inl e \<longrightarrow>
         int k = max 1 retries \<and>
         (\<exists>w0. attempt_once (net k) url dest tmp w0 =
                  (Inl e, snd (download_with_resume net url dest retries w)))) \<and>
      (\<forall>bs. files w tmp = Some bs \<longrightarrow>
         (\<exists>rest. (case fst (download_with_resume net url dest retries w) of
                     Inl e \<Rightarrow> files (snd (download_with_resume net url dest retries w)) tmp
                   | Inr u \<Rightarrow> files (snd (download_with_resume net url dest retries w)) dest)
                  = Some (bs @ rest))) \<and>
      (\<forall>e w1 bs1.
         attempt_once (net 1) url dest tmp (mkdir_parents (parent dest) w) = (Inl e, w1) \<and>
         files w1 tmp = Some bs1 \<longrightarrow>
         (\<exists>rest. (case fst (download_with_resume net url dest retries w) of
                     Inl e \<Rightarrow> files (snd (download_with_resume net url dest retries w)) tmp
                   | Inr u \<Rightarrow> files (snd (download_with_resume net url dest retries w)) dest)
                  = Some (bs1 @ rest)))"
proof -
  let ?w0 = "mkdir_parents (parent dest) w"
  let ?res = "download_with_resume net url dest retries w"
  have eq: "?res = download_loop net url dest tmp retries 0 ?w0"
    using tmp by (rule download_with_resume_loop)
  from download_loop_run [of net url dest tmp retries 0 ?w0]
  obtain k evs where tr: "trace (snd ?res) = trace ?w0 @ evs"
    and am: "attempts_made evs = k" and k1: "1 \<le> k"
    and bd: "int (0 + k) \<le> max (int 0 + 1) retries"
    and sl: "sleeps evs = map (\<lambda>i. 2 ^ i) [0 + 1 ..< 0 + k]"
    and er: "\<forall>e. fst ?res = Inl e \<longrightarrow> retries \<le> int (0 + k) \<and>
        (\<exists>w0. attempt_once (net (0 + k)) url dest tmp w0 = (Inl e, snd ?res))"
    unfolding eq by blast
  have st: "\<exists>rest. (case fst ?res of Inl e \<Rightarrow> files (snd ?res) tmp
                      | Inr u \<Rightarrow> files (snd ?res) dest) = Some (bs @ rest)"
    if "files w tmp = Some bs" for bs
  proof -
    from that have "files ?w0 tmp = Some bs" by simp
    moreover have "download_loop net url dest tmp retries 0 ?w0 = (fst ?res, snd ?res)"
      by (simp add: eq)
    ultimately show ?thesis
      using download_loop_staging [OF staging_differs [OF tmp]] by blast
  qed
  have ka: "\<exists>rest. (case fst ?res of Inl e \<Rightarrow> files (snd ?res) tmp
                      | Inr u \<Rightarrow> files (snd ?res) dest) = Some (bs1 @ rest)"
    if "attempt_once (net 1) url dest tmp ?w0 = (Inl e, w1)" and "files w1 tmp = Some bs1"
    for e w1 bs1
  proof -
    have "download_loop net url dest tmp retries 0 ?w0 = (fst ?res, snd ?res)"
      by (simp add: eq)
    with that show ?thesis
      using download_loop_keeps_attempt [OF staging_differs [OF tmp], of net 0 url ?w0 e w1 bs1]
      by simp
  qed
  have c1: "trace (snd ?res) = trace w @ evs" using tr by simp
  have c3: "int k \<le> max 1 retries" using bd by simp
  have c4: "sleeps evs = map (\<lambda>i. 2 ^ i) [1 ..< k]" using sl by simp
  have c5: "\<forall>e. fst ?res = Inl e \<longrightarrow> int k = max 1 retries \<and>
        (\<exists>w0. attempt_once (net k) url dest tmp w0 = (Inl e, snd ?res))"
    using er c3 k1 by auto
  show ?thesis
    apply (rule exI [of _ k], rule exI [of _ evs])
    using c1 am k1 c3 c4 c5 st ka by blast
qed


text \<open>
  Claim C6, as amended. The retry loop of a download always ends. It makes at most
  \<open>max 1 retries\<close> attempts, and at least one once the staging path is formed (the
  first attempt does not depend on \<open>retries\<close>); after the failed attempt number \<open>i\<close>,
  when another attempt follows, it sleeps \<open>2 ^ i\<close> seconds, so the sleeps of a run with
  \<open>k\<close> attempts are \<open>2 ^ 1, \<dots>, 2 ^ (k - 1)\<close>. When the download fails in the loop, all
  \<open>max 1 retries\<close> attempts were made and the error and the world returned are those of
  the last attempt: nothing is swallowed and no sleep follows. The bytes that the
  staging file held at the start, and those it holds after a failed first attempt, are
  still there at the end, as the beginning of the staging file after a failure and of
  the destination file after a success. A destination without a file name has no
  staging path: the error of \<^verbatim>\<open>with_suffix\<close> is raised before the loop, with no attempt.
\<close>

theorem download_with_resume_retries:
  "\<exists>k evs.
      trace (snd (download_with_resume net url dest retries w)) = trace w @ evs \<and>
      attempts_made evs = k \<and> int k \<le> max 1 retries \<and>
      sleeps evs = map (\<lambda>i. 2 ^ i) [1 ..< k] \<and>
      (\<forall>e. with_suffix dest (suffix dest @ ''.part'') = Inl e \<longrightarrow>
         k = 0 \<and>
         download_with_resume net url dest retries w = (Inl e, mkdir_parents (parent dest) w)) \<and>
      (\<forall>tmp. with_suffix dest (suffix dest @ ''.part'') = Inr tmp \<longrightarrow>
         1 \<le> k \<and>
         (\<forall>e. fst (download_with_resume net url dest retries w) = Inl e \<longrightarrow>
            int k = max 1 retries \<and>
            (\<exists>w0. attempt_once (net k) url dest tmp w0 =
                     (Inl e, snd (download_with_resume net url dest retries w)))) \<and>
         (\<forall>bs. files w tmp = Some bs \<longrightarrow>
            (\<exists>rest. (case fst (download_with_resume net url dest retries w) of
                        Inl e \<Rightarrow> files (snd (download_with_resume net url dest retries w)) tmp
                      | Inr u \<Rightarrow> files (snd (download_with_resume net url dest retries w)) dest)
                     = Some (bs @ rest))) \<and>
         (\<forall>e w1 bs1.
            attempt_once (net 1) url dest tmp (mkdir_parents (parent dest) w) = (Inl e, w1) \<and>
            files w1 tmp = Some bs1 \<longrightarrow>
            (\<exists>rest. (case fst (download_with_resume net url dest retries w) of
                        Inl e \<Rightarrow> files (snd (download_with_resume net url dest retries w)) tmp
                      | Inr u \<Rightarrow> files (snd (download_with_resume net url dest retries w)) dest)
                     = Some (bs1 @ rest))))"
proof (cases "with_suffix dest (suffix dest @ ''.part'')")
  case (Inl e)
  then have res: "download_with_resume net url dest retries w =
      (Inl e, mkdir_parents (parent dest) w)"
    by (simp add: download_with_resume_def)
  show ?thesis
    apply (rule exI [of _ 0], rule exI [of _ "[]"])
    using Inl res by (simp add: attempts_made_def)
next
  case (Inr tmp)
  from download_with_resume_named [OF Inr, of net url retries w]
  obtain k evs where *:
    "trace (snd (download_with_resume net url dest retries w)) = trace w @ evs"
    "attempts_made evs = k" "1 \<le> k" "int k \<le> max 1 retries"
    "sleeps evs = map (\<lambda>i. 2 ^ i) [1 ..< k]"
    "\<forall>e. fst (download_with_resume net url dest retries w) = Inl e \<longrightarrow>
         int k = max 1 retries \<and>
         (\<exists>w0. attempt_once (net k) url dest tmp w0 =
                  (Inl e, snd (download_with_resume net url dest retries w)))"
    "\<forall>bs. files w tmp = Some bs \<longrightarrow>
         (\<exists>rest. (case fst (download_with_resume net url dest retries w) of
                     Inl e \<Rightarrow> files (snd (download_with_resume net url dest retries w)) tmp
                   | Inr u \<Rightarrow> files (snd (download_with_resume net url dest retries w)) dest)
                  = Some (bs @ rest))"
    "\<forall>e w1 bs1.
         attempt_once (net 1) url dest tmp (mkdir_parents (parent dest) w) = (Inl e, w1) \<and>
         files w1 tmp = Some bs1 \<longrightarrow>
         (\<exists>rest. (case fst (download_with_resume net url dest retries w) of
                     Inl e \<Rightarrow> files (snd (download_with_resume net url dest retries w)) tmp
                   | Inr u \<Rightarrow> files (snd (download_with_resume net url dest retries w)) dest)
                  = Some (bs1 @ rest))"
    by blast
  show ?thesis
    apply (rule exI [of _ k], rule exI [of _ evs])
    using * Inr by simp
qed

theorem download_with_resume_retries_witness:
  "with_suffix ex_file (suffix ex_file @ ''.part'') = Inr ex_part \<and>
   fst (download_with_resume (ex_down ex_url) ex_url ex_file 3 ex_partial) =
     Inl (LibError ''URLError'') \<and>
   attempts_made (trace (snd (download_with_resume (ex_down ex_url) ex_url ex_file 3 ex_partial))) = 3 \<and>
   sleeps (trace (snd (download_with_resume (ex_down ex_url) ex_url ex_file 3 ex_partial))) = [2, 4]"
proof -
  let ?res = "download_with_resume (ex_down ex_url) ex_url ex_file 3 ex_partial"
  have fl: "fst ?res = Inl (LibError ''URLError'')" by code_simp
  have t: "trace ex_partial = []" by (simp add: ex_partial_def)
  from download_with_resume_retries [of "ex_down ex_url" ex_url ex_file 3 ex_partial]
  obtain k evs where tr: "trace (snd ?res) = trace ex_partial @ evs"
    and am: "attempts_made evs = k"
    and sl: "sleeps evs = map (\<lambda>i. 2 ^ i) [1 ..< k]"
    and er: "\<forall>tmp. with_suffix ex_file (suffix ex_file @ ''.part'') = Inr tmp \<longrightarrow>
        (\<forall>e. fst ?res = Inl e \<longrightarrow> int k = max 1 3)" by blast
  from er ex_with_suffix have er': "\<forall>e. fst ?res = Inl e \<longrightarrow> int k = max 1 3" by blast
  from er' fl have k: "k = 3" by simp
  have "[1 ..< 3] = [1, 2::nat]" by (simp add: upt_rec)
  with sl k have "sleeps evs = [2, 4]" by simp
  with tr t am k fl ex_with_suffix show ?thesis by simp
qed

text \<open>
  Claim C6 as stated fails for \<open>retries = 0\<close>: one attempt is made, which is more
  than the configured number.
\<close>

theorem zero_retries_counterexample:
  "fst (download_with_resume (ex_down ex_url) ex_url ex_file 0 ex_partial) = Inl (LibError ''URLError'') \<and>
   attempts_made (trace (snd (download_with_resume (ex_down ex_url) ex_url ex_file 0 ex_partial))) = 1"
  by code_simp


section \<open>A complete staging file is promoted without a transfer\<close>

lemma attempt_once_complete:
  assumes "files w tmp = Some bs" and "bs \<noteq> []" and "head_total net = Some t"
    and "t \<noteq> 0" and "t \<le> int (length bs)"
  shows "attempt_once net url dest tmp w = (Inr (), replace tmp dest (emit (Head url) w))"
  using assms by (simp add: attempt_once_def st_size_def already_complete_def)

text \<open>
  Claim C5, as amended. When the staging file is not empty and the HEAD response of the
  first attempt declares a total that is not zero and not larger than the staging size,
  the download makes no GET request: the only request in the trace is the HEAD, the
  staging file is renamed to the destination, and the download returns normally.
\<close>

theorem complete_staging_promoted:
  assumes tmp: "with_suffix dest (suffix dest @ ''.part'') = Inr tmp"
    and "files w tmp = Some bs" and "bs \<noteq> []"
    and "head_total (net 1) = Some t" and "t \<noteq> 0" and "t \<le> int (length bs)"
  shows "download_with_resume net url dest retries w =
           (Inr (), replace tmp dest (emit (Head url) (mkdir_parents (parent dest) w))) \<and>
         trace (snd (download_with_resume net url dest retries w)) = trace w @ [Head url] \<and>
         files (snd (download_with_resume net url dest retries w)) dest = Some bs \<and>
         files (snd (download_with_resume net url dest retries w)) tmp = None"
proof -
  let ?w0 = "mkdir_parents (parent dest) w"
  have "files ?w0 tmp = Some bs" using assms(2) by simp
  then have "attempt_once (net (0 + 1)) url dest tmp ?w0 = (Inr (), replace tmp dest (emit (Head url) ?w0))"
    using assms(3-6) by (simp add: attempt_once_complete)
  then have "download_loop net url dest tmp retries 0 ?w0 =
      (Inr (), replace tmp dest (emit (Head url) ?w0))"
    by (simp add: download_loop.simps [of net url dest tmp retries 0 ?w0])
  then have eq: "download_with_resume net url dest retries w =
      (Inr (), replace tmp dest (emit (Head url) ?w0))"
    using tmp by (simp add: download_with_resume_loop)
  from staging_differs [OF tmp] have "tmp \<noteq> dest" .
  then show ?thesis
    using assms(2) by (simp add: eq files_replace)
qed

theorem complete_staging_promoted_witness:
  "with_suffix ex_file (suffix ex_file @ ''.part'') = Inr ex_part \<and>
   files ex_partial ex_part = Some ''abcde'' \<and>
   head_total (ex_net_total5 1) = Some 5 \<and>
   fst (download_with_resume ex_net_total5 ex_url ex_file 3 ex_partial) = Inr () \<and>
   trace (snd (download_with_resume ex_net_total5 ex_url ex_file 3 ex_partial)) = [Head ex_url] \<and>
   files (snd (download_with_resume ex_net_total5 ex_url ex_file 3 ex_partial)) ex_file = Some ''abcde'' \<and>
   files (snd (download_with_resume ex_net_total5 ex_url ex_file 3 ex_partial)) ex_part = None"
proof -
  have f: "files ex_partial ex_part = Some ''abcde''" by (simp add: ex_partial_def)
  have h: "head_total (ex_net_total5 1) = Some 5" by (simp add: ex_net_total5_def)
  have t: "trace ex_partial = []" by (simp add: ex_partial_def)
  have n: "''abcde'' \<noteq> []" "(5::int) \<noteq> 0" "(5::int) \<le> int (length ''abcde'')"
    by simp_all
  note th = complete_staging_promoted [where net = ex_net_total5 and url = ex_url
      and retries = 3, OF ex_with_suffix f n(1) h n(2) n(3)]
  have c1: "fst (download_with_resume ex_net_total5 ex_url ex_file 3 ex_partial) = Inr ()"
    using th [THEN conjunct1] by simp
  have c2: "trace (snd (download_with_resume ex_net_total5 ex_url ex_file 3 ex_partial)) =
      [Head ex_url]"
    using th [THEN conjunct2, THEN conjunct1] t by simp
  from th [THEN conjunct2, THEN conjunct2] c1 c2 f h ex_with_suffix
  show ?thesis by blast
qed

text \<open>
  Claim C5 as stated fails when the declared total is zero: line 89 tests
  \<^verbatim>\<open>total_size\<close> for truth, so the download goes on to a GET request with a range
  although the staging file is at least as large as the known total.
\<close>

theorem complete_staging_zero_total_counterexample:
  "files ex_partial ex_part = Some ''abcde'' \<and>
   head_total (ex_net_total0 1) = Some 0 \<and>
   trace (snd (download_with_resume ex_net_total0 ex_url ex_file 3 ex_partial)) =
     [Head ex_url, Get ex_url (Some 5), MsgDownloaded ''a.zip'']"
  by code_simp

section \<open>A size mismatch after a transfer is a fault\<close>

lemma content_unopened:
  "files w2 = files w \<Longrightarrow> content (open_staging tmp (st_size w tmp) w2) tmp = content w tmp"
  by (auto simp: content_def open_staging_def st_size_def split: option.splits)

lemma st_size_upd [simp]: "st_size (w\<lparr>files := (files w)(p \<mapsto> bs)\<rparr>) p = length bs"
  by (simp add: st_size_def)

lemma files_open_staging:
  "files (open_staging tmp n w) = (if n \<noteq> 0 then files w else (files w)(tmp \<mapsto> []))"
  by (simp add: open_staging_def)

lemma attempt_once_transfer:
  assumes nc: "\<not> already_complete (st_size w tmp) (head_total net)"
    and get: "get_result net = GetOk cl chunks fault"
    and tot: "expected_total net (st_size w tmp) = Some T"
  shows "attempt_once net url dest tmp w =
     (let w3 = open_staging tmp (st_size w tmp)
                 (emit (Get url (if st_size w tmp \<noteq> 0 then Some (st_size w tmp) else None))
                    (emit (Head url) w));
          w4 = w3\<lparr>files := (files w3)(tmp \<mapsto> content w tmp @ received chunks)\<rparr>
      in case fst (read_loop chunks fault (content w tmp)) of
           Some e \<Rightarrow> (Inl e, w4)
         | None \<Rightarrow>
             if size_mismatch (Some T) (length (content w tmp @ received chunks))
             then (Inl SizeMismatch, w4)
             else (Inr (), emit (MsgDownloaded (name dest)) (replace tmp dest w4)))"
proof -
  have bad: "(head_total net = None \<and> cl = BadCL) = False"
    using tot get by (auto simp: expected_total_def)
  have tot': "(case head_total net of Some t \<Rightarrow> Some t
       | None \<Rightarrow> (case cl of CL n \<Rightarrow> Some (int (st_size w tmp) + n) | _ \<Rightarrow> None)) = Some T"
    using tot get by (auto simp: expected_total_def split: option.splits cl_header.splits)
  have nc': "already_complete (st_size w tmp) (head_total net) = False"
    using nc by simp
  show ?thesis
    using nc' tot' bad
    by (simp add: attempt_once_def Let_def get content_unopened read_loop_received
          split: option.splits)
qed

text \<open>
  Claim C2, as amended. In an attempt that transfers data (the staging file is not
  already complete in the sense of line 89), whose stream ends without a fault and for
  which a total other than zero is known, a staging file whose size differs from that
  total is not promoted: the attempt fails with the size-mismatch error, the destination
  is what it was, the staging file holds the old bytes followed by the received ones,
  and the loop treats the error like any other fault: it is raised if this was the last
  attempt, otherwise the loop sleeps and tries again from that staging file.
\<close>

theorem size_mismatch_not_promoted:
  assumes ne: "tmp \<noteq> dest"
    and nc: "\<not> already_complete (st_size w tmp) (head_total (net (Suc a)))"
    and get: "get_result (net (Suc a)) = GetOk cl chunks fault"
    and nofault: "fst (read_loop chunks fault (content w tmp)) = None"
    and tot: "expected_total (net (Suc a)) (st_size w tmp) = Some T" and nz: "T \<noteq> 0"
    and mis: "int (length (content w tmp @ received chunks)) \<noteq> T"
  shows "\<exists>w'. attempt_once (net (Suc a)) url dest tmp w = (Inl SizeMismatch, w') \<and>
            files w' dest = files w dest \<and>
            files w' tmp = Some (content w tmp @ received chunks) \<and>
            download_loop net url dest tmp retries a w =
              (if retries \<le> int (Suc a) then (Inl SizeMismatch, w')
               else download_loop net url dest tmp retries (Suc a)
                      (emit (Sleep (2 ^ Suc a))
                         (emit (MsgRetry (name dest) SizeMismatch (2 ^ Suc a)) w')))"
proof -
  let ?w3 = "open_staging tmp (st_size w tmp)
               (emit (Get url (if st_size w tmp \<noteq> 0 then Some (st_size w tmp) else None))
                  (emit (Head url) w))"
  let ?w4 = "?w3\<lparr>files := (files ?w3)(tmp \<mapsto> content w tmp @ received chunks)\<rparr>"
  have sm: "size_mismatch (Some T) (length (content w tmp @ received chunks))"
    using nz mis by (simp add: size_mismatch_def)
  have att: "attempt_once (net (Suc a)) url dest tmp w = (Inl SizeMismatch, ?w4)"
    using attempt_once_transfer [OF nc get tot, of url dest] nofault sm by (simp add: Let_def)
  have d: "files ?w4 dest = files w dest"
    using ne by (simp add: files_open_staging)
  have t: "files ?w4 tmp = Some (content w tmp @ received chunks)" by simp
  have lp: "download_loop net url dest tmp retries a w =
      (if retries \<le> int (Suc a) then (Inl SizeMismatch, ?w4)
       else download_loop net url dest tmp retries (Suc a)
              (emit (Sleep (2 ^ Suc a))
                 (emit (MsgRetry (name dest) SizeMismatch (2 ^ Suc a)) ?w4)))"
    using att by (simp add: download_loop.simps [of net url dest tmp retries a w] Let_def)
  from att d t lp show ?thesis by blast
qed


theorem size_mismatch_not_promoted_witness:
  "ex_part \<noteq> ex_file \<and>
   \<not> already_complete (st_size ex_partial ex_part) (head_total (ex_net_short (Suc 0))) \<and>
   expected_total (ex_net_short (Suc 0)) (st_size ex_partial ex_part) = Some 8 \<and>
   fst (download_loop ex_net_short ex_url ex_file ex_part 1 0 ex_partial) = Inl SizeMismatch \<and>
   files (snd (download_loop ex_net_short ex_url ex_file ex_part 1 0 ex_partial)) ex_file = None \<and>
   files (snd (download_loop ex_net_short ex_url ex_file ex_part 1 0 ex_partial)) ex_part =
     Some ''abcdefg''"
proof -
  have ne: "ex_part \<noteq> ex_file" by (simp add: ex_part_def ex_file_def)
  have sz: "st_size ex_partial ex_part = 5" "content ex_partial ex_part = ''abcde''"
    "files ex_partial ex_file = None"
    by (simp_all add: st_size_def content_def ex_partial_def ex_part_def ex_file_def)
  have nc: "\<not> already_complete (st_size ex_partial ex_part) (head_total (ex_net_short (Suc 0)))"
    by (simp add: sz already_complete_def ex_net_short_def)
  have get: "get_result (ex_net_short (Suc 0)) = GetOk (CL 3) [''fg''] None"
    by (simp add: ex_net_short_def)
  have nf: "fst (read_loop [''fg''] None (content ex_partial ex_part)) = None"
    by simp
  have tot: "expected_total (ex_net_short (Suc 0)) (st_size ex_partial ex_part) = Some 8"
    by (simp add: expected_total_def ex_net_short_def)
  have rc: "received [''fg''] = ''fg''" by (simp add: received_def)
  have mis: "int (length (content ex_partial ex_part @ received [''fg''])) \<noteq> 8"
    by (simp add: sz rc)
  from size_mismatch_not_promoted [where net = ex_net_short and a = 0 and retries = 1
      and url = ex_url, OF ne nc get nf tot _ mis]
  obtain w' where
    "files w' ex_file = files ex_partial ex_file"
    "files w' ex_part = Some (content ex_partial ex_part @ received [''fg''])"
    "download_loop ex_net_short ex_url ex_file ex_part 1 0 ex_partial = (Inl SizeMismatch, w')"
    by auto
  with ne nc tot sz rc show ?thesis by simp
qed

text \<open>
  Claim C2 as stated fails for a staging file that is larger than the declared total:
  line 89 promotes it without comparing for equality, so five staged bytes reach the
  destination although the total is known to be three.
\<close>

theorem oversized_staging_promoted_counterexample:
  "files ex_partial ex_part = Some ''abcde'' \<and>
   head_total (ex_net_total3 1) = Some 3 \<and>
   fst (download_with_resume ex_net_total3 ex_url ex_file 3 ex_partial) = Inr () \<and>
   files (snd (download_with_resume ex_net_total3 ex_url ex_file 3 ex_partial)) ex_file = Some ''abcde''"
  by code_simp

section \<open>Resuming at the staging file's size\<close>






section \<open>A failed download does not stop the batch\<close>

lemma process_urls_append:
  "process_urls L A w (us @ vs) = process_urls L A (process_urls L A w us) vs"
  by (induction us arbitrary: w) simp_all

text \<open>
  Claim C8. When the download of a URL of the batch fails (the downloader has given up
  and raised), the iteration for that URL only adds the failure message to the world the
  download left: files and directories are those the download left, so nothing is
  extracted for that URL. The loop then goes on with the URLs after it.
\<close>

theorem download_failure_skips_extraction:
  assumes nm: "safe_fname L url \<noteq> []"
    and dl: "\<not> (exists_path w (joinpath (dest_root A) (safe_fname L url)) \<and> skip_existing A)"
    and fail: "download_with_resume (server L url) url
                 (joinpath (dest_root A) (safe_fname L url)) 3 w = (Inl e, w1)"
    and at: "w = process_urls L A w0 before"
  shows "process_url L A w url = emit (MsgDownloadFailed (safe_fname L url) e) w1 \<and>
         files (process_url L A w url) = files w1 \<and>
         dirs (process_url L A w url) = dirs w1 \<and>
         trace (process_url L A w url) = trace w1 @ [MsgDownloadFailed (safe_fname L url) e] \<and>
         process_urls L A w0 (before @ url # after) =
           process_urls L A (emit (MsgDownloadFailed (safe_fname L url) e) w1) after"
proof -
  have one: "process_url L A w url = emit (MsgDownloadFailed (safe_fname L url) e) w1"
    using nm dl fail by (auto simp: process_url_def Let_def)
  have "process_urls L A w0 (before @ url # after) =
      process_urls L A (process_url L A w url) after"
    by (simp add: process_urls_append at)
  with one show ?thesis by simp
qed

theorem download_failure_skips_extraction_witness:
  "safe_fname ex_lib ''http://h/d/game1.zip'' = ''game1.zip'' \<and>
   fst (download_with_resume (server ex_lib ''http://h/d/game1.zip'') ''http://h/d/game1.zip''
          (joinpath (dest_root ex_args) ''game1.zip'') 3 ex_empty) = Inl (LibError ''URLError'') \<and>
   trace (process_urls ex_lib ex_args ex_empty [''http://h/d/game1.zip'', ''http://h/d/GAME1.ZIP'']) =
     trace (process_urls ex_lib ex_args
       (emit (MsgDownloadFailed ''game1.zip'' (LibError ''URLError''))
          (snd (download_with_resume (server ex_lib ''http://h/d/game1.zip'') ''http://h/d/game1.zip''
                  (joinpath (dest_root ex_args) ''game1.zip'') 3 ex_empty)))
       [''http://h/d/GAME1.ZIP''])"
proof -
  let ?u = "''http://h/d/game1.zip''"
  let ?dl = "download_with_resume (server ex_lib ?u) ?u (joinpath (dest_root ex_args) ''game1.zip'') 3 ex_empty"
  have nm: "safe_fname ex_lib ?u = ''game1.zip''" by code_simp
  then have ne: "safe_fname ex_lib ?u \<noteq> []" by simp
  have nx: "\<not> (exists_path ex_empty (joinpath (dest_root ex_args) (safe_fname ex_lib ?u)) \<and>
      skip_existing ex_args)"
    by (simp add: ex_args_def)
  have fl: "fst ?dl = Inl (LibError ''URLError'')" by code_simp
  then have fail: "download_with_resume (server ex_lib ?u) ?u
      (joinpath (dest_root ex_args) (safe_fname ex_lib ?u)) 3 ex_empty =
      (Inl (LibError ''URLError''), snd ?dl)"
    by (simp add: nm prod_eq_iff)
  have at: "ex_empty = process_urls ex_lib ex_args ex_empty []" by simp
  from download_failure_skips_extraction [OF ne nx fail at, of "[''http://h/d/GAME1.ZIP'']"]
  show ?thesis using nm fl by simp
qed


section \<open>Exit codes\<close>



section \<open>The download path of a URL\<close>

text \<open>
  What holds of the download path: a sanitized name without a slash that is neither
  \<^verbatim>\<open>.\<close> nor \<^verbatim>\<open>..\<close> names a direct child of the destination root, and an empty
  sanitized name ends the iteration with the error message.
\<close>

lemma split_sep_absent: "c \<notin> set s \<Longrightarrow> split_sep c s = [s]"
  by (induction s) auto

lemma joinpath_plain_name:
  assumes "CHR ''/'' \<notin> set s" and "s \<noteq> []" and "s \<noteq> ''.''" and "s \<noteq> ''..''"
  shows "joinpath d s = PPath (is_absolute d) (comps d @ [s]) \<and> parent (joinpath d s) = d"
proof -
  from assms(1,2) have "hd s \<noteq> CHR ''/''" by (cases s) auto
  with assms show ?thesis
    by (simp add: joinpath_def Path_def split_sep_absent parent_def)
qed

lemma process_url_empty_name:
  "safe_fname L url = [] \<Longrightarrow> process_url L A w url = emit (MsgInvalidName (raw_fname L url)) w"
  by (simp add: process_url_def Let_def)

text \<open>
  Claim C7 fails on the code. The last path segment is taken before the percent escapes
  are decoded, and the slash is not among the characters that line 180 removes. For the
  link \<^verbatim>\<open>%2E%2E%2Fevil.zip\<close> the sanitized name is \<^verbatim>\<open>../evil.zip\<close>, the download
  path is \<^verbatim>\<open>/d/../evil.zip\<close>, whose parent is not the destination root \<^verbatim>\<open>/d\<close>, and
  the file is written there, also by a run of the whole program on an index page with
  that link; for \<^verbatim>\<open>a%2Fb.zip\<close> the download path is \<^verbatim>\<open>/d/a/b.zip\<close>,
  below a subdirectory of the root.
\<close>

theorem percent_encoded_slash_leaves_dest:
  "safe_fname ex_lib ex_bad_url = ''../evil.zip'' \<and>
   joinpath (dest_root ex_args) (safe_fname ex_lib ex_bad_url) =
     PPath True [''d'', ''..'', ''evil.zip''] \<and>
   parent (joinpath (dest_root ex_args) (safe_fname ex_lib ex_bad_url)) \<noteq> dest_root ex_args \<and>
   files (process_url ex_lib_up ex_args ex_empty ex_bad_url)
     (PPath True [''d'', ''..'', ''evil.zip'']) = Some ''evil'' \<and>
   list_zip_urls ex_lib_trav (base_url ex_args) = Inr [ex_bad_url] \<and>
   fst (main ex_lib_trav ex_args ex_empty) = 0 \<and>
   files (snd (main ex_lib_trav ex_args ex_empty)) (PPath True [''d'', ''..'', ''evil.zip'']) =
     Some ''evil'' \<and>
   safe_fname ex_lib ex_sub_url = ''a/b.zip'' \<and>
   joinpath (dest_root ex_args) (safe_fname ex_lib ex_sub_url) =
     PPath True [''d'', ''a'', ''b.zip'']"
  by code_simp

end
